theory Spec2Isabelle
  imports Main "HOL-Library.Product_Lexorder" "HOL-Library.Word"
begin

section \<open>Python values\<close>

text \<open>
  A Python \<^verbatim>\<open>str\<close> is a sequence of Unicode code points, so a string is a list of
  natural numbers; \<open>ascii\<close> embeds an ASCII literal. Python integers are unbounded
  (\<open>int\<close>); the integers of a pandas column are 64 bits wide.
\<close>

type_synonym pystr = "nat list"

definition ascii :: "string \<Rightarrow> pystr" where
  "ascii s = map of_char s"

text \<open>
  The exceptions the program can meet. \<open>StopException\<close> is what \<^verbatim>\<open>st.stop()\<close> raises;
  it derives from \<^verbatim>\<open>BaseException\<close>, so \<^verbatim>\<open>except Exception\<close> does not catch it.
\<close>

datatype exn =
    ValueError
  | KeyError
  | NoSuchElementException
  | TimeoutException
  | WebDriverException
  | OverflowError
  | StopException

fun is_Exception :: "exn \<Rightarrow> bool" where
  "is_Exception StopException = False"
| "is_Exception _ = True"

subsection \<open>Unicode decimal digits\<close>

text \<open>
  The pattern \<^verbatim>\<open>\d\<close> on a \<^verbatim>\<open>str\<close> matches every character of Unicode category Nd,
  and \<^verbatim>\<open>int()\<close> accepts the same characters with their digit value. The category
  consists of blocks of ten consecutive code points, zero first; \<open>decimal_zeros\<close>
  lists the zero of each block (Unicode 14).
\<close>

definition decimal_zeros :: "nat list" where
  "decimal_zeros =
    [48, 1632, 1776, 1984, 2406, 2534, 2662, 2790, 2918, 3046, 3174, 3302, 3430, 3558,
     3664, 3792, 3872, 4160, 4240, 6112, 6160, 6470, 6608, 6784, 6800, 6992, 7088, 7232,
     7248, 42528, 43216, 43264, 43472, 43504, 43600, 44016, 65296, 66720, 68912, 69734,
     69872, 69942, 70096, 70384, 70736, 70864, 71248, 71360, 71472, 71904, 72016, 72784,
     73040, 73120, 92768, 92864, 93008, 120782, 120792, 120802, 120812, 120822, 123200,
     123632, 125264, 130032]"

definition to_decimal :: "nat \<Rightarrow> nat option" where
  "to_decimal c = map_option (\<lambda>z. c - z) (find (\<lambda>z. z \<le> c \<and> c < z + 10) decimal_zeros)"

definition is_decimal :: "nat \<Rightarrow> bool" where
  "is_decimal c = (to_decimal c \<noteq> None)"

subsection \<open>\<^verbatim>\<open>int()\<close> on a digit string\<close>

text \<open>
  \<^verbatim>\<open>int(s)\<close> for a string of decimal digits, most significant first. A character
  that is no decimal digit, or the empty string, is a \<^verbatim>\<open>ValueError\<close>; signs,
  surrounding blanks and underscores, which \<^verbatim>\<open>int()\<close> also accepts, do not occur
  in what the program passes and are not modelled. CPython refuses a string of more
  than \<^verbatim>\<open>sys.get_int_max_str_digits()\<close> digits, leading zeros counted, with a
  \<^verbatim>\<open>ValueError\<close>; the program leaves that limit at its default.
\<close>

definition int_max_str_digits :: nat where
  "int_max_str_digits = 4300"

fun int_digits :: "int \<Rightarrow> pystr \<Rightarrow> exn + int" where
  "int_digits acc [] = Inr acc"
| "int_digits acc (c # cs) =
     (case to_decimal c of
        None \<Rightarrow> Inl ValueError
      | Some d \<Rightarrow> int_digits (10 * acc + int d) cs)"

definition py_int :: "pystr \<Rightarrow> exn + int" where
  "py_int s =
     (if s = [] then Inl ValueError
      else if int_max_str_digits < length s then Inl ValueError
      else int_digits 0 s)"

subsection \<open>\<^verbatim>\<open>re.search(r"(\d+)", text)\<close>\<close>

text \<open>
  The search tries each start position from the left; at the first position holding a
  digit, the greedy \<^verbatim>\<open>\d+\<close> takes every digit that follows. The result is group 1 of
  the match, or \<open>None\<close>.
\<close>

fun re_search_digits :: "pystr \<Rightarrow> pystr option" where
  "re_search_digits [] = None"
| "re_search_digits (c # cs) =
     (if is_decimal c then Some (c # takeWhile is_decimal cs) else re_search_digits cs)"

section \<open>The citation parser\<close>

text \<open>
  \<^verbatim>\<open>parse_citations_text\<close>. The argument is \<open>None\<close> for an absent text; \<^verbatim>\<open>not text\<close>
  holds for \<open>None\<close> and for the empty string.
\<close>

definition parse_citations_text :: "pystr option \<Rightarrow> exn + int" where
  "parse_citations_text text =
     (case text of
        None \<Rightarrow> Inr 0
      | Some t \<Rightarrow>
          if t = [] then Inr 0
          else (case re_search_digits t of
                  Some g \<Rightarrow> py_int g
                | None \<Rightarrow> Inr 0))"

text \<open>
  The words of the specification: the first contiguous run of decimal digits, and the
  number a digit string denotes in positional notation.
\<close>

definition first_digit_run :: "pystr \<Rightarrow> pystr" where
  "first_digit_run t = takeWhile is_decimal (dropWhile (\<lambda>c. \<not> is_decimal c) t)"

fun decimal_value :: "pystr \<Rightarrow> int" where
  "decimal_value [] = 0"
| "decimal_value (c # cs) =
     int (case to_decimal c of Some d \<Rightarrow> d | None \<Rightarrow> 0) * 10 ^ length cs + decimal_value cs"

section \<open>The rendered document\<close>

text \<open>
  The page the browser shows is a tree of elements and text nodes. An element carries
  its tag, the tokens of its \<^verbatim>\<open>class\<close> attribute, and its \<^verbatim>\<open>name\<close> and \<^verbatim>\<open>href\<close>
  attributes when present. The page does not change while it is searched.
\<close>

datatype node =
    Text pystr
  | Elem string "string list" "string option" "pystr option" "node list"

text \<open>
  A \<^verbatim>\<open>WebElement\<close> is a node together with its ancestors, the nearest first.
\<close>

type_synonym element = "node \<times> node list"

fun descendants :: "node \<Rightarrow> node list \<Rightarrow> element list" where
  "descendants (Text s) anc = []"
| "descendants (Elem t cs nm h ks) anc =
     concat (map (\<lambda>k. (k, Elem t cs nm h ks # anc) # descendants k (Elem t cs nm h ks # anc)) ks)"

fun ancestors_or_self :: "node list \<Rightarrow> element list" where
  "ancestors_or_self [] = []"
| "ancestors_or_self (n # anc) = (n, anc) # ancestors_or_self anc"

fun text_content :: "node \<Rightarrow> pystr" where
  "text_content (Text s) = s"
| "text_content (Elem t cs nm h ks) = concat (map text_content ks)"

text \<open>\<open>contains p s\<close>: the sequence \<open>p\<close> occurs in \<open>s\<close> (Python's \<^verbatim>\<open>p in s\<close>, XPath's
  \<^verbatim>\<open>contains(s, p)\<close>, the CSS attribute test \<^verbatim>\<open>*=\<close>).\<close>

fun contains :: "'a list \<Rightarrow> 'a list \<Rightarrow> bool" where
  "contains p [] = (p = [])"
| "contains p (x # xs) = (take (length p) (x # xs) = p \<or> contains p xs)"

fun class_attr :: "string list \<Rightarrow> string" where
  "class_attr [] = []"
| "class_attr [c] = c"
| "class_attr (c # cs) = c @ '' '' @ class_attr cs"

text \<open>
  The locators the program uses:
  \<^item> \<open>Css t cs\<close>: a CSS selector of a tag and classes, as \<^verbatim>\<open>div.gs_fl.gs_flb\<close> or \<^verbatim>\<open>a\<close>;
  \<^item> \<open>CssHref t s\<close>: \<^verbatim>\<open>t[href*='s']\<close>;
  \<^item> \<open>ByName n\<close>: \<^verbatim>\<open>By.NAME\<close>;
  \<^item> \<open>XPathText t ss\<close>: \<^verbatim>\<open>.//t[contains(., s1) or contains(., s2)]\<close>;
  \<^item> \<open>XPathAncestor t ss\<close>:
    \<^verbatim>\<open>./ancestor-or-self::t[contains(@class,s1) or contains(@class,s2)][1]\<close>.
\<close>

datatype locator =
    Css string "string list"
  | CssHref string pystr
  | ByName string
  | XPathText string "pystr list"
  | XPathAncestor string "string list"

fun node_matches :: "locator \<Rightarrow> node \<Rightarrow> bool" where
  "node_matches loc (Text s) = False"
| "node_matches (Css t' cs') (Elem t cs nm h ks) = (t = t' \<and> list_all (\<lambda>c. c \<in> set cs) cs')"
| "node_matches (CssHref t' s) (Elem t cs nm h ks) =
     (t = t' \<and> (case h of None \<Rightarrow> False | Some u \<Rightarrow> contains s u))"
| "node_matches (ByName n) (Elem t cs nm h ks) = (nm = Some n)"
| "node_matches (XPathText t' ss) (Elem t cs nm h ks) =
     (t = t' \<and> list_ex (\<lambda>s. contains s (text_content (Elem t cs nm h ks))) ss)"
| "node_matches (XPathAncestor t' ss) (Elem t cs nm h ks) =
     (t = t' \<and> list_ex (\<lambda>s. contains s (class_attr cs)) ss)"

text \<open>
  \<^verbatim>\<open>find_elements\<close> in the scope of an element: the matching descendants in document
  order, or, on the reverse axis, the nearest match among the element and its ancestors.
\<close>

fun find_elements :: "element \<Rightarrow> locator \<Rightarrow> element list" where
  "find_elements (n, anc) (XPathAncestor t ss) =
     take 1 (filter (\<lambda>e. node_matches (XPathAncestor t ss) (fst e)) (ancestors_or_self (n # anc)))"
| "find_elements (n, anc) loc =
     filter (\<lambda>e. node_matches loc (fst e)) (descendants n anc)"

definition find_element :: "element \<Rightarrow> locator \<Rightarrow> exn + element" where
  "find_element scope loc =
     (case find_elements scope loc of
        [] \<Rightarrow> Inl NoSuchElementException
      | e # _ \<Rightarrow> Inr e)"

text \<open>The same from the driver: the scope is the whole document, its root included.\<close>

definition driver_find_elements :: "node \<Rightarrow> locator \<Rightarrow> element list" where
  "driver_find_elements root loc =
     filter (\<lambda>e. node_matches loc (fst e)) ((root, []) # descendants root [])"

definition driver_find_element :: "node \<Rightarrow> locator \<Rightarrow> exn + element" where
  "driver_find_element root loc =
     (case driver_find_elements root loc of
        [] \<Rightarrow> Inl NoSuchElementException
      | e # _ \<Rightarrow> Inr e)"

text \<open>\<^verbatim>\<open>element.text\<close>, all text of the subtree taken as visible, and \<^verbatim>\<open>str.strip()\<close>.\<close>

definition elem_text :: "element \<Rightarrow> pystr" where
  "elem_text e = text_content (fst e)"

definition py_isspace :: "nat \<Rightarrow> bool" where
  "py_isspace c \<longleftrightarrow>
     (9 \<le> c \<and> c \<le> 13) \<or> (28 \<le> c \<and> c \<le> 32) \<or> c = 133 \<or> c = 160 \<or> c = 5760 \<or>
     (8192 \<le> c \<and> c \<le> 8202) \<or> c = 8232 \<or> c = 8233 \<or> c = 8239 \<or> c = 8287 \<or> c = 12288"

definition strip :: "pystr \<Rightarrow> pystr" where
  "strip s = rev (dropWhile py_isspace (rev (dropWhile py_isspace s)))"

section \<open>Extraction of one page\<close>

record item =
  page :: int
  rank :: int
  title :: pystr
  citations :: int

text \<open>Lines 183 to 192: the title of a card. Only \<^verbatim>\<open>NoSuchElementException\<close> is caught.\<close>

definition card_title :: "element \<Rightarrow> exn + pystr" where
  "card_title crd =
     (case find_element crd (Css ''h3'' [''gs_rt'']) of
        Inl e \<Rightarrow> if e = NoSuchElementException then Inr [] else Inl e
      | Inr h3 \<Rightarrow>
          (case find_element h3 (Css ''a'' []) of
             Inl e \<Rightarrow> if e = NoSuchElementException then Inr (strip (elem_text h3)) else Inl e
           | Inr a \<Rightarrow> Inr (strip (elem_text a))))"

text \<open>
  Lines 205 to 215, and again lines 224 to 234: in a scope, the link whose target holds
  \<^verbatim>\<open>cites=\<close>, else the link whose text holds one of the two phrases, else \<open>None\<close>.
\<close>

definition cited_by_phrases :: "pystr list" where
  "cited_by_phrases = [[51064, 50857], ascii ''Cited by'']"

definition cite_link_in :: "element \<Rightarrow> exn + element option" where
  "cite_link_in scope =
     (case find_element scope (CssHref ''a'' (ascii ''cites='')) of
        Inr l \<Rightarrow> Inr (Some l)
      | Inl e \<Rightarrow>
          if e \<noteq> NoSuchElementException then Inl e
          else (case find_element scope (XPathText ''a'' cited_by_phrases) of
                  Inr l \<Rightarrow> Inr (Some l)
                | Inl e' \<Rightarrow> if e' = NoSuchElementException then Inr None else Inl e'))"

text \<open>Lines 198 to 236: the toolbar container first, then the result block.\<close>

definition card_cite_link :: "element \<Rightarrow> exn + element option" where
  "card_cite_link crd =
     (case (case find_element crd (Css ''div'' [''gs_fl'', ''gs_flb'']) of
              Inr c \<Rightarrow> Inr (Some c)
            | Inl e \<Rightarrow> if e = NoSuchElementException then Inr None else Inl e) of
        Inl e \<Rightarrow> Inl e
      | Inr fl_container \<Rightarrow>
          (case (case fl_container of None \<Rightarrow> Inr None | Some c \<Rightarrow> cite_link_in c) of
             Inl e \<Rightarrow> Inl e
           | Inr (Some l) \<Rightarrow> Inr (Some l)
           | Inr None \<Rightarrow>
               (case find_element crd (XPathAncestor ''div'' [''gs_r'', ''gs_scl'']) of
                  Inl e \<Rightarrow> if is_Exception e then Inr None else Inl e
                | Inr parent \<Rightarrow>
                    (case cite_link_in parent of
                       Inl e \<Rightarrow> if is_Exception e then Inr None else Inl e
                     | Inr r \<Rightarrow> Inr r))))"

text \<open>Lines 195 to 241: the citation count of a card; any \<^verbatim>\<open>Exception\<close> gives 0.\<close>

definition card_citations :: "element \<Rightarrow> exn + int" where
  "card_citations crd =
     (case card_cite_link crd of
        Inl e \<Rightarrow> if is_Exception e then Inr 0 else Inl e
      | Inr None \<Rightarrow> Inr 0
      | Inr (Some l) \<Rightarrow>
          (case parse_citations_text (Some (strip (elem_text l))) of
             Inl e \<Rightarrow> if is_Exception e then Inr 0 else Inl e
           | Inr n \<Rightarrow> Inr n))"

text \<open>The loop over the cards, with the rank counter and the list built so far.\<close>

fun collect_loop :: "int \<Rightarrow> element list \<Rightarrow> int \<Rightarrow> item list \<Rightarrow> exn + item list" where
  "collect_loop page_idx [] rnk items = Inr items"
| "collect_loop page_idx (crd # cards) rnk items =
     (case card_title crd of
        Inl e \<Rightarrow> Inl e
      | Inr ttl \<Rightarrow>
          (case card_citations crd of
             Inl e \<Rightarrow> Inl e
           | Inr cit \<Rightarrow>
               if ttl \<noteq> []
               then collect_loop page_idx cards (rnk + 1)
                      (items @ [\<lparr>page = page_idx, rank = rnk + 1, title = ttl, citations = cit\<rparr>])
               else collect_loop page_idx cards rnk items))"

definition collect_page_items :: "node \<Rightarrow> int \<Rightarrow> exn + item list" where
  "collect_page_items root page_idx =
     collect_loop page_idx (driver_find_elements root (Css ''div'' [''gs_ri''])) 0 []"

section \<open>The browser and its surroundings\<close>

text \<open>
  What the browser shows: the page source as \<^verbatim>\<open>driver.page_source\<close> returns it, and
  the document.
\<close>

record rendered =
  page_source :: pystr
  dom :: node

datatype request = Get pystr | Submit pystr

record datetime =
  year :: nat
  month :: nat
  day :: nat
  hour :: nat
  minute :: nat
  second :: nat

text \<open>
  Everything the program does not decide itself:
  \<^item> \<open>launch_ok\<close>: whether \<^verbatim>\<open>uc.Chrome(...)\<close> starts a browser;
  \<^item> \<open>serve n r\<close>: the page shown once the \<open>n\<close>-th navigation, the request \<open>r\<close>, has
    settled, or \<open>None\<close> when the driver raises instead;
  \<^item> \<open>scrolled\<close>: the page after a scroll to the bottom;
  \<^item> \<open>quit_ok\<close>: whether \<^verbatim>\<open>driver.quit()\<close> succeeds;
  \<^item> \<open>lower\<close> and \<open>quote_plus\<close>: \<^verbatim>\<open>str.lower\<close> and \<^verbatim>\<open>urllib.parse.quote_plus\<close>;
  \<^item> \<open>now\<close>: the clock; \<open>to_excel\<close>: the spreadsheet writer of pandas;
  \<^item> \<open>float_astype c\<close>: the count \<open>c\<close> taken to \<^verbatim>\<open>float64\<close> and cast back to the
    integer type, as pandas and the platform do it, or \<open>None\<close> when the conversion to a
    float overflows.
\<close>

record env =
  launch_ok :: bool
  serve :: "nat \<Rightarrow> request \<Rightarrow> rendered option"
  scrolled :: "rendered \<Rightarrow> rendered"
  quit_ok :: bool
  lower :: "pystr \<Rightarrow> pystr"
  quote_plus :: "pystr \<Rightarrow> pystr"
  now :: datetime
  to_excel :: "item list \<Rightarrow> exn + 8 word list"
  float_astype :: "int \<Rightarrow> int option"

text \<open>What can be observed of a run, in order.\<close>

datatype event =
    Launched
  | Loaded rendered
  | Warned
  | Scrolled
  | Extracted int "item list"
  | Quit

record browser =
  current :: rendered
  navs :: nat
  log :: "event list"

definition navigate :: "env \<Rightarrow> request \<Rightarrow> browser \<Rightarrow> (exn + unit) \<times> browser" where
  "navigate E r b =
     (case serve E (navs b) r of
        None \<Rightarrow> (Inl WebDriverException, b\<lparr>navs := Suc (navs b)\<rparr>)
      | Some pg \<Rightarrow>
          (Inr (), b\<lparr>current := pg, navs := Suc (navs b), log := log b @ [Loaded pg]\<rparr>))"

text \<open>
  \<^verbatim>\<open>WebDriverWait(driver, 15).until(presence_of_element_located(...))\<close>: the page has
  settled, so the element is there or the wait ends in a \<^verbatim>\<open>TimeoutException\<close>.
\<close>

definition present :: "browser \<Rightarrow> locator \<Rightarrow> bool" where
  "present b loc = (driver_find_elements (dom (current b)) loc \<noteq> [])"

section \<open>The challenge gate\<close>

definition hints :: "pystr list" where
  "hints =
     [ascii ''captcha'', [47196, 48391, 51060], [51088, 46041, 54868], [48372, 50504],
      ascii ''verify you are a human'', ascii ''i'' @ [39] @ ascii ''m not a robot'',
      [47928, 51088, 47484, 32, 51077, 47141]]"

definition is_challenge :: "env \<Rightarrow> rendered \<Rightarrow> bool" where
  "is_challenge E pg = list_ex (\<lambda>h. contains h (lower E (page_source pg))) hints"

text \<open>
  \<^verbatim>\<open>wait_if_captcha\<close>: \<^verbatim>\<open>st.warning\<close>, then \<^verbatim>\<open>st.stop()\<close>, which raises.
\<close>

definition wait_if_captcha :: "env \<Rightarrow> bool \<Rightarrow> browser \<Rightarrow> (exn + bool) \<times> browser" where
  "wait_if_captcha E prompt_on_streamlit b =
     (if is_challenge E (current b)
      then (if prompt_on_streamlit
            then (Inl StopException, b\<lparr>log := log b @ [Warned]\<rparr>)
            else (Inr True, b))
      else (Inr False, b))"

section \<open>Navigation\<close>

definition URL_TEMPLATE :: "pystr \<Rightarrow> pystr" where
  "URL_TEMPLATE query =
     ascii ''https://scholar.google.co.kr/scholar?hl=ko&as_sdt=0%2C5&q='' @ query @ ascii ''&btnG=''"

text \<open>Lines 124 to 133, the body of the \<^verbatim>\<open>try\<close>: the query typed into the search box.\<close>

definition resubmit :: "env \<Rightarrow> pystr \<Rightarrow> browser \<Rightarrow> (exn + unit) \<times> browser" where
  "resubmit E query b =
     (case driver_find_element (dom (current b)) (ByName ''q'') of
        Inl e \<Rightarrow> (Inl e, b)
      | Inr box \<Rightarrow>
          (case navigate E (Submit query) b of
             (Inl e, b1) \<Rightarrow> (Inl e, b1)
           | (Inr _, b1) \<Rightarrow>
               (case wait_if_captcha E True b1 of
                  (Inl e, b2) \<Rightarrow> (Inl e, b2)
                | (Inr _, b2) \<Rightarrow>
                    if present b2 (Css ''div'' [''gs_ri'']) then (Inr (), b2)
                    else (Inl TimeoutException, b2))))"

definition open_with_query :: "env \<Rightarrow> pystr \<Rightarrow> browser \<Rightarrow> (exn + unit) \<times> browser" where
  "open_with_query E query b =
     (case navigate E (Get (URL_TEMPLATE (quote_plus E query))) b of
        (Inl e, b1) \<Rightarrow> (Inl e, b1)
      | (Inr _, b1) \<Rightarrow>
          (case wait_if_captcha E True b1 of
             (Inl e, b2) \<Rightarrow> (Inl e, b2)
           | (Inr _, b2) \<Rightarrow>
               if \<not> (present b2 (ByName ''q'') \<or> present b2 (Css ''div'' [''gs_ri'']))
               then (Inl TimeoutException, b2)
               else (case resubmit E query b2 of
                       (Inl e, b3) \<Rightarrow> if is_Exception e then (Inr (), b3) else (Inl e, b3)
                     | (Inr _, b3) \<Rightarrow> (Inr (), b3))))"

fun scroll_page :: "env \<Rightarrow> nat \<Rightarrow> browser \<Rightarrow> browser" where
  "scroll_page E 0 b = b"
| "scroll_page E (Suc n) b =
     scroll_page E n (b\<lparr>current := scrolled E (current b), log := log b @ [Scrolled]\<rparr>)"

text \<open>\<^verbatim>\<open>str()\<close> of an integer, for the \<^verbatim>\<open>start\<close> parameter of the address.\<close>

fun digits_of :: "nat \<Rightarrow> nat \<Rightarrow> pystr" where
  "digits_of 0 n = []"
| "digits_of (Suc fuel) n =
     (if n < 10 then [48 + n] else digits_of fuel (n div 10) @ [48 + n mod 10])"

definition py_str :: "int \<Rightarrow> pystr" where
  "py_str i = (if i < 0 then 45 # digits_of (Suc (nat (- i))) (nat (- i))
               else digits_of (Suc (nat i)) (nat i))"

definition go_to_page :: "env \<Rightarrow> pystr \<Rightarrow> int \<Rightarrow> browser \<Rightarrow> (exn + unit) \<times> browser" where
  "go_to_page E query page_index b =
     (let start = (page_index - 1) * 10;
          url = ascii ''https://scholar.google.co.kr/scholar?start='' @ py_str start
                @ ascii ''&q='' @ quote_plus E query @ ascii ''&hl=ko&as_sdt=0,5''
      in case navigate E (Get url) b of
           (Inl e, b1) \<Rightarrow> (Inl e, b1)
         | (Inr _, b1) \<Rightarrow>
             (case wait_if_captcha E True b1 of
                (Inl e, b2) \<Rightarrow> (Inl e, b2)
              | (Inr _, b2) \<Rightarrow>
                  if present b2 (Css ''div'' [''gs_ri'']) then (Inr (), b2)
                  else (Inl TimeoutException, b2)))"

section \<open>The run\<close>

definition collect_step :: "int \<Rightarrow> browser \<Rightarrow> (exn + item list) \<times> browser" where
  "collect_step page_idx b =
     (case collect_page_items (dom (current b)) page_idx of
        Inl e \<Rightarrow> (Inl e, b)
      | Inr items \<Rightarrow> (Inr items, b\<lparr>log := log b @ [Extracted page_idx items]\<rparr>))"

text \<open>Lines 269 to 272: the pages after the first, \<^verbatim>\<open>range(2, total_pages + 1)\<close>.\<close>

fun pages_loop ::
  "env \<Rightarrow> pystr \<Rightarrow> nat \<Rightarrow> int list \<Rightarrow> item list \<Rightarrow> browser \<Rightarrow> (exn + item list) \<times> browser" where
  "pages_loop E query scroll_count [] results b = (Inr results, b)"
| "pages_loop E query scroll_count (p # ps) results b =
     (case go_to_page E query p b of
        (Inl e, b1) \<Rightarrow> (Inl e, b1)
      | (Inr _, b1) \<Rightarrow>
          (case collect_step p (scroll_page E scroll_count b1) of
             (Inl e, b2) \<Rightarrow> (Inl e, b2)
           | (Inr items, b2) \<Rightarrow> pages_loop E query scroll_count ps (results @ items) b2))"

text \<open>
  Lines 274 to 280. A frame built from no rows has no columns, so reading the column
  \<^verbatim>\<open>citations\<close> of it is a \<^verbatim>\<open>KeyError\<close>.

  Line 278, \<^verbatim>\<open>to_numeric(...).fillna(0).astype(int)\<close>. The frame keeps a column of
  Python integers as 64-bit integers when all of them fit the signed range, or all of
  them fit the unsigned range; \<^verbatim>\<open>to_numeric\<close> leaves such a column as it is and
  \<^verbatim>\<open>astype(int)\<close> takes it to the signed 64-bit type, wrapping around. Any other
  column stays a column of objects, which \<^verbatim>\<open>to_numeric\<close> takes through \<^verbatim>\<open>float64\<close>
  (\<open>float_astype\<close>).

  \<^verbatim>\<open>sort_values\<close> on several columns is a stable sort on the tuple of keys, a
  descending key negated.
\<close>

definition get_citations :: "item list \<Rightarrow> exn + int list" where
  "get_citations df = (if df = [] then Inl KeyError else Inr (map citations df))"

definition astype_int64 :: "int \<Rightarrow> int" where
  "astype_int64 c = (c + 2 ^ 63) mod 2 ^ 64 - 2 ^ 63"

definition integer_column :: "int list \<Rightarrow> bool" where
  "integer_column col \<longleftrightarrow>
     list_all (\<lambda>c. - (2 ^ 63) \<le> c \<and> c < 2 ^ 63) col \<or> list_all (\<lambda>c. 0 \<le> c \<and> c < 2 ^ 64) col"

definition coerce_citations :: "env \<Rightarrow> int list \<Rightarrow> exn + int list" where
  "coerce_citations E col =
     (if integer_column col then Inr (map astype_int64 col)
      else (case those (map (float_astype E) col) of
              None \<Rightarrow> Inl OverflowError
            | Some col' \<Rightarrow> Inr col'))"

definition set_citations :: "item list \<Rightarrow> int list \<Rightarrow> item list" where
  "set_citations df col = map (\<lambda>(r, c). r\<lparr>citations := c\<rparr>) (zip df col)"

definition sort_values :: "item list \<Rightarrow> item list" where
  "sort_values df = sort_key (\<lambda>r. (- citations r, page r, rank r)) df"

definition aggregate :: "env \<Rightarrow> item list \<Rightarrow> exn + item list" where
  "aggregate E results =
     (let df = results
      in if df = [] then Inr df
         else (case get_citations df of
                 Inl e \<Rightarrow> Inl e
               | Inr col \<Rightarrow>
                   (case coerce_citations E col of
                      Inl e \<Rightarrow> Inl e
                    | Inr col' \<Rightarrow> Inr (sort_values (set_citations df col')))))"

text \<open>Lines 263 to 272, the pages of the run in turn.\<close>

definition traverse ::
  "env \<Rightarrow> pystr \<Rightarrow> int \<Rightarrow> nat \<Rightarrow> browser \<Rightarrow> (exn + item list) \<times> browser" where
  "traverse E query total_pages scroll_count b =
     (case open_with_query E query b of
        (Inl e, b1) \<Rightarrow> (Inl e, b1)
      | (Inr _, b1) \<Rightarrow>
          (case collect_step 1 (scroll_page E scroll_count b1) of
             (Inl e, b2) \<Rightarrow> (Inl e, b2)
           | (Inr items, b2) \<Rightarrow>
               pages_loop E query scroll_count [2..total_pages] ([] @ items) b2))"

text \<open>Lines 263 to 280, the body of the \<^verbatim>\<open>try\<close>.\<close>

definition scrape_body ::
  "env \<Rightarrow> pystr \<Rightarrow> int \<Rightarrow> nat \<Rightarrow> browser \<Rightarrow> (exn + item list) \<times> browser" where
  "scrape_body E query total_pages scroll_count b =
     (case traverse E query total_pages scroll_count b of
        (Inl e, b3) \<Rightarrow> (Inl e, b3)
      | (Inr results, b3) \<Rightarrow> (aggregate E results, b3))"

definition driver_quit :: "env \<Rightarrow> browser \<Rightarrow> (exn + unit) \<times> browser" where
  "driver_quit E b =
     (if quit_ok E then Inr () else Inl WebDriverException, b\<lparr>log := log b @ [Quit]\<rparr>)"

definition blank :: rendered where
  "blank = \<lparr>page_source = [], dom = Elem ''html'' [] None None []\<rparr>"

text \<open>
  \<^verbatim>\<open>run_scrape\<close>: the driver is built before the \<^verbatim>\<open>try\<close>; the \<^verbatim>\<open>finally\<close> clause quits
  it and drops any \<^verbatim>\<open>Exception\<close> of the quit.
\<close>

definition run_scrape ::
  "env \<Rightarrow> pystr \<Rightarrow> int \<Rightarrow> nat \<Rightarrow> (exn + item list) \<times> browser" where
  "run_scrape E query total_pages scroll_count =
     (if \<not> launch_ok E
      then (Inl WebDriverException, \<lparr>current = blank, navs = 0, log = []\<rparr>)
      else (case scrape_body E query total_pages scroll_count
                   \<lparr>current = blank, navs = 0, log = [Launched]\<rparr> of
              (r, b1) \<Rightarrow>
                (case driver_quit E b1 of
                   (Inl e, b2) \<Rightarrow> if is_Exception e then (r, b2) else (Inl e, b2)
                 | (Inr _, b2) \<Rightarrow> (r, b2))))"

section \<open>Export and the user interface\<close>

definition pad2 :: "nat \<Rightarrow> pystr" where
  "pad2 n = (if n < 10 then [48, 48 + n] else py_str (int n))"

definition pad4 :: "nat \<Rightarrow> pystr" where
  "pad4 n = replicate (4 - length (py_str (int n))) 48 @ py_str (int n)"

text \<open>\<^verbatim>\<open>strftime("%Y%m%d_%H%M%S")\<close>.\<close>

definition strftime :: "datetime \<Rightarrow> pystr" where
  "strftime t =
     pad4 (year t) @ pad2 (month t) @ pad2 (day t) @ [95]
     @ pad2 (hour t) @ pad2 (minute t) @ pad2 (second t)"

text \<open>The character class of line 291: \<^verbatim>\<open>\ / : * ? " < > |\<close>; 95 is the underscore.\<close>

definition unsafe_chars :: "nat list" where
  "unsafe_chars = [92, 47, 58, 42, 63, 34, 60, 62, 124]"

definition safe_query :: "pystr \<Rightarrow> pystr" where
  "safe_query query = map (\<lambda>c. if c \<in> set unsafe_chars then 95 else c) query"

definition file_name :: "env \<Rightarrow> pystr \<Rightarrow> pystr" where
  "file_name E query =
     ascii ''scholar_results_'' @ safe_query query @ [95] @ strftime (now E) @ ascii ''.xlsx''"

definition df_to_excel_bytes :: "env \<Rightarrow> item list \<Rightarrow> pystr \<Rightarrow> exn + pystr \<times> 8 word list" where
  "df_to_excel_bytes E df query =
     (case to_excel E df of
        Inl e \<Rightarrow> Inl e
      | Inr xlsx \<Rightarrow> Inr (file_name E query, xlsx))"

text \<open>
  Lines 333 to 376, what one press of the start button shows: the error for a blank
  query, the warning for no results, the table with its download (name and content), an
  error message, or nothing more when the script was stopped.
\<close>

datatype shown =
    Error_no_query
  | Warning_no_results
  | Success "item list" pystr "8 word list"
  | Error_message exn
  | Stopped

definition on_run_btn :: "env \<Rightarrow> pystr \<Rightarrow> int \<Rightarrow> nat \<Rightarrow> shown" where
  "on_run_btn E query total_pages scroll_count =
     (if strip query = [] then Error_no_query
      else (case fst (run_scrape E query total_pages scroll_count) of
              Inl e \<Rightarrow> if is_Exception e then Error_message e else Stopped
            | Inr df_sorted \<Rightarrow>
                if df_sorted = [] then Warning_no_results
                else (case df_to_excel_bytes E df_sorted query of
                        Inl e \<Rightarrow> if is_Exception e then Error_message e else Stopped
                      | Inr (fname, xbytes) \<Rightarrow> Success df_sorted fname xbytes)))"

section \<open>Notions of the specification\<close>

text \<open>
  The order of the result set: \<open>before a b\<close> when \<open>a\<close> has more citations than \<open>b\<close>, or
  as many and a lower page, or as many, the same page and a lower rank. A sequence is
  ordered when no record stands behind one it is before.
\<close>

definition before :: "item \<Rightarrow> item \<Rightarrow> bool" where
  "before a b \<longleftrightarrow>
     citations a > citations b
     \<or> (citations a = citations b \<and> page a < page b)
     \<or> (citations a = citations b \<and> page a = page b \<and> rank a < rank b)"

definition ordered :: "item list \<Rightarrow> bool" where
  "ordered df = sorted_wrt (\<lambda>a b. \<not> before b a) df"

text \<open>What a run did after the first page with a challenge signature was loaded, if any.\<close>

fun after_challenge :: "env \<Rightarrow> event list \<Rightarrow> event list option" where
  "after_challenge E [] = None"
| "after_challenge E (Loaded pg # evs) =
     (if is_challenge E pg then Some evs else after_challenge E evs)"
| "after_challenge E (ev # evs) = after_challenge E evs"

text \<open>The records of all page extractions of a run, and its use of the browser session.\<close>

fun extracted :: "event list \<Rightarrow> item list" where
  "extracted [] = []"
| "extracted (Extracted p items # evs) = items @ extracted evs"
| "extracted (ev # evs) = extracted evs"

definition session_events :: "event list \<Rightarrow> event list" where
  "session_events evs = filter (\<lambda>ev. ev = Launched \<or> ev = Quit) evs"

text \<open>
  What every step of a run keeps: it neither launches nor quits the browser, and from a
  log without a challenge page it either stops, leaving a log in which the warning is
  all that follows the challenge page, or leaves a log without one.
\<close>

definition step_ok :: "env \<Rightarrow> browser \<Rightarrow> bool \<Rightarrow> browser \<Rightarrow> bool" where
  "step_ok E b stopped b' \<longleftrightarrow>
     session_events (log b') = session_events (log b)
     \<and> (after_challenge E (log b) = None \<longrightarrow>
          (if stopped then after_challenge E (log b') = Some [Warned]
           else after_challenge E (log b') = None))"

section \<open>A small site\<close>

text \<open>
  Concrete pages and surroundings, on which the theorems below are applied: a results
  page of two cards, a page showing a challenge, a page whose cards have no title, a
  page with the search box and no card, and a result block holding its citation link
  beside the card.
\<close>

definition demo_card :: "pystr \<Rightarrow> pystr \<Rightarrow> node" where
  "demo_card ttl cite =
     Elem ''div'' [''gs_ri''] None None
       [Elem ''h3'' [''gs_rt''] None None [Elem ''a'' [] None (Some (ascii ''/p'')) [Text ttl]],
        Elem ''div'' [''gs_fl'', ''gs_flb''] None None
          [Elem ''a'' [] None (Some (ascii ''/scholar?cites=9'')) [Text cite]]]"

definition demo_dom :: node where
  "demo_dom =
     Elem ''html'' [] None None
       [Elem ''div'' [''gs_r'', ''gs_scl''] None None
          [demo_card (ascii ''A'') (ascii ''Cited by 5'')],
        Elem ''div'' [''gs_r''] None None
          [demo_card (ascii '' B '') (ascii ''20'' @ [54924, 32, 51064, 50857])]]"

definition demo_page :: rendered where
  "demo_page = \<lparr>page_source = ascii ''<html>results</html>'', dom = demo_dom\<rparr>"

definition captcha_page :: rendered where
  "captcha_page =
     \<lparr>page_source = ascii ''<html>Please solve this CAPTCHA</html>'', dom = demo_dom\<rparr>"

definition untitled_page :: rendered where
  "untitled_page =
     \<lparr>page_source = ascii ''<html>results</html>'',
      dom = Elem ''html'' [] None None [Elem ''div'' [''gs_ri''] None None []]\<rparr>"

definition ascii_lower :: "pystr \<Rightarrow> pystr" where
  "ascii_lower s = map (\<lambda>c. if 65 \<le> c \<and> c \<le> 90 then c + 32 else c) s"

definition demo_env :: env where
  "demo_env =
     \<lparr>launch_ok = True,
      serve = (\<lambda>n r. Some demo_page),
      scrolled = (\<lambda>pg. pg),
      quit_ok = False,
      lower = ascii_lower,
      quote_plus = (\<lambda>s. s),
      now = \<lparr>year = 2025, month = 11, day = 2, hour = 3, minute = 14, second = 5\<rparr>,
      to_excel = (\<lambda>df. Inr [80, 75]),
      float_astype = (\<lambda>c. None)\<rparr>"

definition captcha_env :: env where
  "captcha_env = demo_env\<lparr>serve := (\<lambda>n r. if n = 0 then Some demo_page else Some captcha_page)\<rparr>"

definition untitled_env :: env where
  "untitled_env = demo_env\<lparr>serve := (\<lambda>n r. Some untitled_page)\<rparr>"

definition cardless_page :: rendered where
  "cardless_page =
     \<lparr>page_source = ascii ''<html>no results</html>'',
      dom = Elem ''html'' [] None None [Elem ''input'' [] (Some ''q'') None []]\<rparr>"

definition cardless_env :: env where
  "cardless_env = demo_env\<lparr>serve := (\<lambda>n r. Some cardless_page)\<rparr>"

definition bug_card :: node where
  "bug_card =
     Elem ''div'' [''gs_ri''] None None [Elem ''h3'' [''gs_rt''] None None [Text (ascii ''T'')]]"

definition bug_link :: node where
  "bug_link = Elem ''a'' [] None (Some (ascii ''/scholar?cites=42'')) [Text (ascii ''Cited by 7'')]"

definition bug_block :: node where
  "bug_block = Elem ''div'' [''gs_r'', ''gs_scl''] None None [bug_link, bug_card]"

definition bug_dom :: node where
  "bug_dom = Elem ''html'' [] None None [bug_block]"

section \<open>Properties of the citation parser\<close>

lemma re_search_digits_run:
  "re_search_digits t = (if first_digit_run t = [] then None else Some (first_digit_run t))"
  by (induction t) (simp_all add: first_digit_run_def)

lemma first_digit_run_decimal: "c \<in> set (first_digit_run t) \<Longrightarrow> is_decimal c"
  unfolding first_digit_run_def by (auto dest: set_takeWhileD)

lemma first_digit_run_empty_iff: "first_digit_run t = [] \<longleftrightarrow> (\<forall>c \<in> set t. \<not> is_decimal c)"
  by (induction t) (simp_all add: first_digit_run_def)

lemma int_digits_value:
  "\<forall>c \<in> set ds. is_decimal c \<Longrightarrow>
     int_digits acc ds = Inr (acc * 10 ^ length ds + decimal_value ds)"
proof (induction ds arbitrary: acc)
  case Nil
  then show ?case by simp
next
  case (Cons c cs)
  then obtain d where d: "to_decimal c = Some d"
    by (auto simp: is_decimal_def)
  with Cons show ?case
    by (simp add: algebra_simps)
qed

lemma decimal_value_nonneg: "0 \<le> decimal_value ds"
  by (induction ds) simp_all

lemma parse_citations_text_run:
  "parse_citations_text (Some t) =
     (if int_max_str_digits < length (first_digit_run t) then Inl ValueError
      else Inr (decimal_value (first_digit_run t)))"
proof (cases "first_digit_run t = []")
  case True
  then show ?thesis
    by (simp add: parse_citations_text_def re_search_digits_run)
next
  case False
  then have "t \<noteq> []"
    by (auto simp: first_digit_run_def)
  with False show ?thesis
    using int_digits_value [of "first_digit_run t" 0]
    by (simp add: parse_citations_text_def re_search_digits_run py_int_def
        first_digit_run_decimal)
qed

lemma parse_citations_text_None: "parse_citations_text None = Inr 0"
  by (simp add: parse_citations_text_def)

lemma parse_citations_text_Inl: "parse_citations_text x = Inl e \<Longrightarrow> e = ValueError"
  by (cases x) (auto simp: parse_citations_text_None parse_citations_text_run split: if_splits)

lemma parse_citations_text_Inr: "parse_citations_text x = Inr n \<Longrightarrow> 0 \<le> n"
  by (cases x)
    (auto simp: parse_citations_text_None parse_citations_text_run decimal_value_nonneg
      split: if_splits)

lemmas parse_eval =
  parse_citations_text_def ascii_def py_int_def is_decimal_def to_decimal_def decimal_zeros_def
  int_max_str_digits_def

text \<open>
  C2, as the claim states it: the parser would never raise. On a text of 4301 digits
  one it raises a \<^verbatim>\<open>ValueError\<close>.
\<close>

theorem parse_citations_text_raises_counterexample:
  "parse_citations_text (Some (replicate 4301 49)) = Inl ValueError"
proof -
  have "is_decimal 49"
    by (simp add: parse_eval)
  then have "first_digit_run (replicate 4301 49) = replicate 4301 49"
    by (simp add: first_digit_run_def)
  then show ?thesis
    by (simp add: parse_citations_text_run int_max_str_digits_def)
qed

text \<open>
  C2, amended. For every text whose first contiguous run of decimal digits has at most
  4300 digits, the citation parser returns the value of that run, and 0 when the text
  is absent, empty or holds no digit; on a longer run it raises a \<^verbatim>\<open>ValueError\<close>, and it
  raises nothing else. It never returns a negative number. So the empty text and
  \<^verbatim>\<open>no digits\<close> give 0, \<^verbatim>\<open>13\<close> followed by the Korean words gives 13,
  \<^verbatim>\<open>Cited by 1234\<close> gives 1234 and \<^verbatim>\<open>a1b2\<close> gives 1.
\<close>

theorem parse_citations_text_first_run:
  "parse_citations_text None = Inr 0
   \<and> parse_citations_text (Some t) =
       (if length (first_digit_run t) \<le> int_max_str_digits
        then Inr (if list_ex is_decimal t then decimal_value (first_digit_run t) else 0)
        else Inl ValueError)
   \<and> (parse_citations_text x = Inr n \<longrightarrow> 0 \<le> n)
   \<and> (parse_citations_text x = Inl e \<longrightarrow> e = ValueError)
   \<and> parse_citations_text (Some (ascii [])) = Inr 0
   \<and> parse_citations_text (Some (ascii ''no digits'')) = Inr 0
   \<and> parse_citations_text (Some (ascii ''13'' @ [54924, 32, 51064, 50857])) = Inr 13
   \<and> parse_citations_text (Some (ascii ''Cited by 1234'')) = Inr 1234
   \<and> parse_citations_text (Some (ascii ''a1b2'')) = Inr 1"
proof -
  have run: "parse_citations_text (Some t) =
       (if length (first_digit_run t) \<le> int_max_str_digits
        then Inr (if list_ex is_decimal t then decimal_value (first_digit_run t) else 0)
        else Inl ValueError)"
  proof (cases "list_ex is_decimal t")
    case True
    then show ?thesis by (simp add: parse_citations_text_run)
  next
    case False
    then have "first_digit_run t = []"
      by (simp add: first_digit_run_empty_iff list_ex_iff)
    with False show ?thesis by (simp add: parse_citations_text_run)
  qed
  have pos: "parse_citations_text x = Inr n \<longrightarrow> 0 \<le> n"
    by (simp add: parse_citations_text_Inr)
  have err: "parse_citations_text x = Inl e \<longrightarrow> e = ValueError"
    by (simp add: parse_citations_text_Inl)
  have e0: "parse_citations_text (Some (ascii [])) = Inr 0"
    by (simp add: parse_eval)
  have e1: "parse_citations_text (Some (ascii ''no digits'')) = Inr 0"
    by (simp add: parse_eval)
  have e2: "parse_citations_text (Some (ascii ''13'' @ [54924, 32, 51064, 50857])) = Inr 13"
    by (simp add: parse_eval)
  have e3: "parse_citations_text (Some (ascii ''Cited by 1234'')) = Inr 1234"
    by (simp add: parse_eval)
  have e4: "parse_citations_text (Some (ascii ''a1b2'')) = Inr 1"
    by (simp add: parse_eval)
  show ?thesis
    by (rule conjI, rule parse_citations_text_None, rule conjI, rule run, rule conjI,
        rule pos, rule conjI, rule err, rule conjI, rule e0, rule conjI, rule e1,
        rule conjI, rule e2, rule conjI, rule e3, rule e4)
qed

theorem parse_citations_text_first_run_witness:
  "list_ex is_decimal [120, 1636, 1634, 32, 55]
   \<and> first_digit_run [120, 1636, 1634, 32, 55] = [1636, 1634]
   \<and> length (first_digit_run [120, 1636, 1634, 32, 55]) \<le> int_max_str_digits
   \<and> parse_citations_text (Some [120, 1636, 1634, 32, 55]) = Inr 42"
proof -
  have d: "list_ex is_decimal [120, 1636, 1634, 32, 55]"
    by (simp add: parse_eval)
  have r: "first_digit_run [120, 1636, 1634, 32, 55] = [1636, 1634]"
    by (simp add: parse_eval first_digit_run_def)
  have l: "length (first_digit_run [120, 1636, 1634, 32, 55]) \<le> int_max_str_digits"
    by (simp add: r int_max_str_digits_def)
  have v: "decimal_value [1636, 1634] = 42"
    by (simp add: parse_eval)
  have "parse_citations_text (Some [120, 1636, 1634, 32, 55]) =
      (if length (first_digit_run [120, 1636, 1634, 32, 55]) \<le> int_max_str_digits
       then Inr (if list_ex is_decimal [120, 1636, 1634, 32, 55]
                 then decimal_value (first_digit_run [120, 1636, 1634, 32, 55]) else 0)
       else Inl ValueError)"
    by (rule parse_citations_text_first_run
        [of "[120, 1636, 1634, 32, 55]", THEN conjunct2, THEN conjunct1])
  with l d have "parse_citations_text (Some [120, 1636, 1634, 32, 55])
      = Inr (decimal_value (first_digit_run [120, 1636, 1634, 32, 55]))"
    by (simp only: if_True)
  then have "parse_citations_text (Some [120, 1636, 1634, 32, 55]) = Inr 42"
    by (simp only: r v)
  with d r l show ?thesis
    by (simp only: simp_thms)
qed

section \<open>Properties of the aggregation\<close>

lemma key_le_iff:
  "(- citations a, page a, rank a) \<le> (- citations b, page b, rank b) \<longleftrightarrow> \<not> before b a"
  by (auto simp: before_def)

lemma ordered_iff_sorted:
  "ordered df \<longleftrightarrow> sorted (map (\<lambda>r. (- citations r, page r, rank r)) df)"
proof -
  have "(\<lambda>x y. (- citations x, page x, rank x) \<le> (- citations y, page y, rank y))
      = (\<lambda>a b. \<not> before b a)"
    by (intro ext) (rule key_le_iff)
  then show ?thesis
    by (simp only: ordered_def sorted_map)
qed

lemma ordered_sort_values: "ordered (sort_values df)"
  by (simp add: ordered_iff_sorted sort_values_def)

lemma sort_values_ordered_id: "ordered df \<Longrightarrow> sort_values df = df"
  by (simp add: ordered_iff_sorted sort_values_def sort_key_id_if_sorted)

lemma those_length: "those xs = Some ys \<Longrightarrow> length ys = length xs"
  by (induction xs arbitrary: ys) (auto split: option.splits)

lemma coerce_citations_length:
  "coerce_citations E col = Inr col' \<Longrightarrow> length col' = length col"
  by (auto simp: coerce_citations_def split: if_splits option.splits dest: those_length)

lemma coerce_citations_Inl: "coerce_citations E col = Inl e \<Longrightarrow> e = OverflowError"
  by (auto simp: coerce_citations_def split: if_splits option.splits)

lemma aggregate_Nil: "aggregate E [] = Inr []"
  by (simp add: aggregate_def)

lemma aggregate_Inl: "aggregate E results = Inl e \<Longrightarrow> e = OverflowError"
  by (auto simp: aggregate_def get_citations_def Let_def split: if_splits sum.splits
      dest: coerce_citations_Inl)

lemma aggregate_Inr:
  assumes "aggregate E results = Inr out"
  shows "\<exists>col'. length col' = length results \<and> out = sort_values (set_citations results col')"
proof (cases "results = []")
  case True
  with assms have "out = sort_values (set_citations results [])"
    by (simp add: aggregate_Nil sort_values_def set_citations_def)
  with True show ?thesis by auto
next
  case False
  with assms obtain col' where c: "coerce_citations E (map citations results) = Inr col'"
    and out: "out = sort_values (set_citations results col')"
    by (auto simp: aggregate_def get_citations_def Let_def split: sum.splits)
  from coerce_citations_length [OF c] out show ?thesis by auto
qed

lemma ordered_aggregate: "aggregate E results = Inr out \<Longrightarrow> ordered out"
  using aggregate_Inr [of E results out] by (auto simp: ordered_sort_values)

lemma sort_values_Nil_iff: "sort_values df = [] \<longleftrightarrow> df = []"
  using length_sort [of "\<lambda>r. (- citations r, page r, rank r)" df]
  by (auto simp: sort_values_def simp del: length_sort)

lemma aggregate_empty_iff: "aggregate E results = Inr out \<Longrightarrow> out = [] \<longleftrightarrow> results = []"
  using aggregate_Inr [of E results out]
  by (auto simp: sort_values_Nil_iff set_citations_def)

lemma set_citations_same:
  "list_all (\<lambda>r. 0 \<le> citations r \<and> citations r < 2 ^ 63) df \<Longrightarrow>
     set_citations df (map (astype_int64 \<circ> citations) df) = df"
  by (induction df) (simp_all add: set_citations_def astype_int64_def)

text \<open>Counts within the signed 64-bit range pass line 278 unchanged.\<close>

lemma aggregate_int64:
  assumes "results \<noteq> []" "list_all (\<lambda>r. 0 \<le> citations r \<and> citations r < 2 ^ 63) results"
  shows "aggregate E results = Inr (sort_values results)"
proof -
  from assms(2) have "list_all (\<lambda>c. - (2 ^ 63) \<le> c \<and> c < 2 ^ 63) (map citations results)"
    by (induction results) simp_all
  then have "integer_column (map citations results)"
    by (simp add: integer_column_def)
  with assms show ?thesis
    by (simp add: aggregate_def get_citations_def coerce_citations_def set_citations_same)
qed

text \<open>A count of \<open>2 ^ 63\<close> wraps around to \<open>- 2 ^ 63\<close> and is sorted last.\<close>

lemma aggregate_wraps:
  "aggregate E
     [\<lparr>page = 1, rank = 1, title = t1, citations = 9223372036854775808\<rparr>,
      \<lparr>page = 1, rank = 2, title = t2, citations = 3\<rparr>]
   = Inr [\<lparr>page = 1, rank = 2, title = t2, citations = 3\<rparr>,
          \<lparr>page = 1, rank = 1, title = t1, citations = - 9223372036854775808\<rparr>]"
  by (simp add: aggregate_def get_citations_def coerce_citations_def integer_column_def
      astype_int64_def set_citations_def sort_values_def)

lemma ordered_nth:
  assumes "ordered df" "i < length df" "j < length df" "before (df ! i) (df ! j)"
  shows "i < j"
proof (rule ccontr)
  assume "\<not> i < j"
  then consider "i = j" | "j < i" by linarith
  then show False
  proof cases
    case 1
    with assms(4) show False by (simp add: before_def)
  next
    case 2
    with assms(1,2) have "\<not> before (df ! i) (df ! j)"
      by (simp add: ordered_def sorted_wrt_iff_nth_less)
    with assms(4) show False by simp
  qed
qed

text \<open>
  C8. Sorting a result set that is already in the order of the sort (citations
  descending, then page ascending, then rank ascending) gives the same sequence; the
  sort yields such a sequence, so sorting twice is sorting once.
\<close>

theorem sort_values_idempotent:
  "(ordered df \<longrightarrow> sort_values df = df)
   \<and> ordered (sort_values df)
   \<and> sort_values (sort_values df) = sort_values df"
  by (simp add: sort_values_ordered_id ordered_sort_values)

theorem sort_values_idempotent_witness:
  "ordered [\<lparr>page = 1, rank = 2, title = [66], citations = 20\<rparr>,
            \<lparr>page = 2, rank = 1, title = [67], citations = 20\<rparr>,
            \<lparr>page = 2, rank = 1, title = [65], citations = 20\<rparr>,
            \<lparr>page = 1, rank = 1, title = [65], citations = 5\<rparr>]
   \<and> sort_values [\<lparr>page = 1, rank = 2, title = [66], citations = 20\<rparr>,
                   \<lparr>page = 2, rank = 1, title = [67], citations = 20\<rparr>,
                   \<lparr>page = 2, rank = 1, title = [65], citations = 20\<rparr>,
                   \<lparr>page = 1, rank = 1, title = [65], citations = 5\<rparr>]
       = [\<lparr>page = 1, rank = 2, title = [66], citations = 20\<rparr>,
          \<lparr>page = 2, rank = 1, title = [67], citations = 20\<rparr>,
          \<lparr>page = 2, rank = 1, title = [65], citations = 20\<rparr>,
          \<lparr>page = 1, rank = 1, title = [65], citations = 5\<rparr>]"
proof -
  let ?df = "[\<lparr>page = 1, rank = 2, title = [66], citations = 20\<rparr>,
              \<lparr>page = 2, rank = 1, title = [67], citations = 20\<rparr>,
              \<lparr>page = 2, rank = 1, title = [65], citations = 20\<rparr>,
              \<lparr>page = 1, rank = 1, title = [65::nat], citations = 5\<rparr>]"
  have o: "ordered ?df"
    by (simp add: ordered_def before_def)
  from sort_values_idempotent [of ?df] have "ordered ?df \<longrightarrow> sort_values ?df = ?df"
    by (rule conjunct1)
  with o show ?thesis by blast
qed

section \<open>Properties of the document search\<close>

lemma find_element_Inl: "find_element scope loc = Inl e \<Longrightarrow> e = NoSuchElementException"
  by (simp add: find_element_def split: list.splits)

lemma contains_iff: "contains p s \<longleftrightarrow> (\<exists>a b. s = a @ p @ b)"
proof (induction s)
  case Nil
  then show ?case by auto
next
  case (Cons x xs)
  have "take (length p) (x # xs) = p \<longleftrightarrow> (\<exists>b. x # xs = p @ b)"
    by (metis append_eq_conv_conj append_take_drop_id)
  moreover have "(\<exists>a b. x # xs = a @ p @ b) \<longleftrightarrow> (\<exists>b. x # xs = p @ b) \<or> (\<exists>a b. xs = a @ p @ b)"
  proof
    assume "\<exists>a b. x # xs = a @ p @ b"
    then obtain a b where ab: "x # xs = a @ p @ b" by blast
    show "(\<exists>b. x # xs = p @ b) \<or> (\<exists>a b. xs = a @ p @ b)"
    proof (cases a)
      case Nil
      with ab show ?thesis by auto
    next
      case (Cons y ys)
      with ab have "xs = ys @ p @ b" by simp
      then show ?thesis by blast
    qed
  next
    assume "(\<exists>b. x # xs = p @ b) \<or> (\<exists>a b. xs = a @ p @ b)"
    then show "\<exists>a b. x # xs = a @ p @ b"
    proof
      assume "\<exists>b. x # xs = p @ b"
      then obtain b where "x # xs = [] @ p @ b" by auto
      then show ?thesis by blast
    next
      assume "\<exists>a b. xs = a @ p @ b"
      then obtain a b where "x # xs = (x # a) @ p @ b" by auto
      then show ?thesis by blast
    qed
  qed
  ultimately show ?case using Cons.IH by simp
qed

lemma class_attr_token: "c \<in> set cs \<Longrightarrow> \<exists>a b. class_attr cs = a @ c @ b"
proof (induction cs rule: class_attr.induct)
  case 1
  then show ?case by simp
next
  case (2 c')
  then have "class_attr [c'] = [] @ c @ []" by simp
  then show ?case by blast
next
  case (3 c' d ds)
  show ?case
  proof (cases "c = c'")
    case True
    then have "class_attr (c' # d # ds) = [] @ c @ ('' '' @ class_attr (d # ds))" by simp
    then show ?thesis by blast
  next
    case False
    with 3 obtain a b where "class_attr (d # ds) = a @ c @ b" by auto
    then have "class_attr (c' # d # ds) = (c' @ '' '' @ a) @ c @ b" by simp
    then show ?thesis by blast
  qed
qed

lemma card_is_result_block:
  assumes "node_matches (Css ''div'' [''gs_ri'']) n"
  shows "node_matches (XPathAncestor ''div'' [''gs_r'', ''gs_scl'']) n"
proof (cases n)
  case (Text s)
  with assms show ?thesis by simp
next
  case (Elem t cs nm h ks)
  with assms have t: "t = ''div''" and c: "''gs_ri'' \<in> set cs" by simp_all
  from class_attr_token [OF c] obtain a b where "class_attr cs = a @ ''gs_ri'' @ b" by blast
  then have "class_attr cs = a @ ''gs_r'' @ (''i'' @ b)" by simp
  then have "contains ''gs_r'' (class_attr cs)"
    unfolding contains_iff by blast
  with Elem t show ?thesis by simp
qed

lemma ancestor_lookup_is_card:
  assumes "node_matches (Css ''div'' [''gs_ri'']) (fst crd)"
  shows "find_element crd (XPathAncestor ''div'' [''gs_r'', ''gs_scl'']) = Inr crd"
proof -
  obtain n anc where crd: "crd = (n, anc)" by (cases crd)
  with assms have "node_matches (XPathAncestor ''div'' [''gs_r'', ''gs_scl'']) n"
    by (simp add: card_is_result_block)
  with crd show ?thesis
    by (simp add: find_element_def)
qed

lemma cards_match:
  "crd \<in> set (driver_find_elements root (Css ''div'' [''gs_ri''])) \<Longrightarrow>
     node_matches (Css ''div'' [''gs_ri'']) (fst crd)"
  by (auto simp: driver_find_elements_def split: if_splits)

lemma descendants_trans:
  "(k, a) \<in> set (descendants n anc) \<Longrightarrow> set (descendants k a) \<subseteq> set (descendants n anc)"
proof (induction n anc rule: descendants.induct)
  case (1 s anc)
  then show ?case by simp
next
  case (2 t cs nm h ks anc)
  let ?N = "Elem t cs nm h ks"
  from "2.prems" obtain c where c: "c \<in> set ks"
    and k: "(k, a) = (c, ?N # anc) \<or> (k, a) \<in> set (descendants c (?N # anc))"
    by auto
  from k have "set (descendants k a) \<subseteq> set (descendants c (?N # anc))"
    using "2.IH" [OF c] by auto
  with c show ?case by auto
qed

lemma filter_descendants_sub:
  assumes "(k, a) \<in> set (descendants n anc)" "filter P (descendants n anc) = []"
  shows "filter P (descendants k a) = []"
  using descendants_trans [OF assms(1)] assms(2)
  by (auto simp: filter_empty_conv)

lemma cite_link_in_None_iff:
  "cite_link_in (n, anc) = Inr None \<longleftrightarrow>
     filter (\<lambda>e. node_matches (CssHref ''a'' (ascii ''cites='')) (fst e)) (descendants n anc) = []
     \<and> filter (\<lambda>e. node_matches (XPathText ''a'' cited_by_phrases) (fst e)) (descendants n anc) = []"
  by (auto simp: cite_link_in_def find_element_def split: sum.splits list.splits)

lemma cite_link_in_sub:
  assumes "(k, a) \<in> set (descendants n anc)" "cite_link_in (n, anc) = Inr None"
  shows "cite_link_in (k, a) = Inr None"
  using assms(2) filter_descendants_sub [OF assms(1)]
  by (simp add: cite_link_in_None_iff)

lemma toolbar_in_card:
  assumes "find_element (n, anc) (Css t cs) = Inr e"
  shows "e \<in> set (descendants n anc)"
proof -
  from assms obtain es
    where "filter (\<lambda>e. node_matches (Css t cs) (fst e)) (descendants n anc) = e # es"
    by (auto simp: find_element_def split: list.splits)
  then have "e \<in> set (filter (\<lambda>e. node_matches (Css t cs) (fst e)) (descendants n anc))"
    by simp
  then show ?thesis by simp
qed

text \<open>The fallback of a card never looks beyond the card itself.\<close>

lemma card_cite_link_own_subtree:
  assumes crd: "node_matches (Css ''div'' [''gs_ri'']) (fst crd)"
    and none: "cite_link_in crd = Inr None"
  shows "card_cite_link crd = Inr None" and "card_citations crd = Inr 0"
proof -
  obtain n anc where c: "crd = (n, anc)" by (cases crd)
  have tb: "find_element crd (Css ''div'' [''gs_fl'', ''gs_flb'']) = Inr t \<Longrightarrow>
      cite_link_in t = Inr None" for t
  proof -
    assume "find_element crd (Css ''div'' [''gs_fl'', ''gs_flb'']) = Inr t"
    then have "t \<in> set (descendants n anc)"
      using toolbar_in_card [of n anc _ _ t] c by simp
    then show ?thesis
      using cite_link_in_sub [of "fst t" "snd t" n anc] none c by simp
  qed
  show "card_cite_link crd = Inr None"
    using tb none ancestor_lookup_is_card [OF crd]
    by (auto simp: card_cite_link_def split: sum.split option.split dest: find_element_Inl)
  then show "card_citations crd = Inr 0"
    by (simp add: card_citations_def)
qed

section \<open>Properties of the page extraction\<close>

lemma card_title_no_exn: "card_title crd \<noteq> Inl e"
  by (auto simp: card_title_def split: sum.split dest: find_element_Inl)

lemma cite_link_in_no_exn: "cite_link_in scope \<noteq> Inl e"
  by (auto simp: cite_link_in_def split: sum.split dest: find_element_Inl)

lemma card_cite_link_no_exn: "card_cite_link crd \<noteq> Inl e"
  by (auto simp: card_cite_link_def cite_link_in_no_exn split: sum.split option.split
      dest: find_element_Inl)

lemma card_citations_no_exn: "card_citations crd \<noteq> Inl e"
  by (auto simp: card_citations_def card_cite_link_no_exn
      split: sum.split option.split dest: parse_citations_text_Inl)

lemma card_title_total: "\<exists>t. card_title crd = Inr t"
  using card_title_no_exn [of crd] by (cases "card_title crd") auto

lemma card_citations_total: "\<exists>n. card_citations crd = Inr n"
  using card_citations_no_exn [of crd] by (cases "card_citations crd") auto

lemma collect_loop_ranks:
  "\<exists>new. collect_loop p cards r items = Inr (items @ new)
     \<and> map rank new = [r + 1..r + int (length new)]
     \<and> map page new = replicate (length new) p
     \<and> map (\<lambda>i. Inr (title i)) new = filter (\<lambda>t. t \<noteq> Inr []) (map card_title cards)"
proof (induction cards arbitrary: r items)
  case Nil
  then show ?case by simp
next
  case (Cons crd cards)
  obtain t where t: "card_title crd = Inr t"
    using card_title_total by blast
  obtain n where n: "card_citations crd = Inr n"
    using card_citations_total by blast
  show ?case
  proof (cases "t = []")
    case True
    with t n Cons.IH [of r items] show ?thesis by simp
  next
    case False
    let ?it = "\<lparr>page = p, rank = r + 1, title = t, citations = n\<rparr>"
    from Cons.IH [of "r + 1" "items @ [?it]"]
    obtain new where new:
      "collect_loop p cards (r + 1) (items @ [?it]) = Inr ((items @ [?it]) @ new)"
      "map rank new = [r + 1 + 1..r + 1 + int (length new)]"
      "map page new = replicate (length new) p"
      "map (\<lambda>i. Inr (title i)) new = filter (\<lambda>t. t \<noteq> Inr []) (map card_title cards)"
      by blast
    have up: "[r + 1..r + int (length (?it # new))]
        = (r + 1) # [r + 1 + 1..r + 1 + int (length new)]"
      by (subst upto_rec1) (simp_all add: algebra_simps)
    show ?thesis
      apply (rule exI [of _ "?it # new"])
      using t n False new up by (simp add: algebra_simps)
  qed
qed

lemmas dom_eval =
  collect_page_items_def driver_find_elements_def card_title_def card_citations_def
  card_cite_link_def cite_link_in_def find_element_def elem_text_def strip_def py_isspace_def
  cited_by_phrases_def parse_eval

lemma demo_collect:
  "collect_page_items demo_dom p =
     Inr [\<lparr>page = p, rank = 1, title = ascii ''A'', citations = 5\<rparr>,
          \<lparr>page = p, rank = 2, title = ascii ''B'', citations = 20\<rparr>]"
  by (simp add: demo_dom_def demo_card_def dom_eval)

lemma untitled_collect: "collect_page_items (dom untitled_page) p = Inr []"
  by (simp add: untitled_page_def dom_eval)

text \<open>
  C4. The extraction of a page returns records whose ranks are 1, 2, ... up to their
  number, all carrying the page index, and whose titles are, in document order, the
  titles of the cards that are not empty: a card with an empty title gives no record
  and takes no rank.
\<close>

theorem collect_page_items_ranks:
  "\<exists>items. collect_page_items root p = Inr items
     \<and> map rank items = [1..int (length items)]
     \<and> map page items = replicate (length items) p
     \<and> map (\<lambda>i. Inr (title i)) items
         = filter (\<lambda>t. t \<noteq> Inr [])
             (map card_title (driver_find_elements root (Css ''div'' [''gs_ri''])))"
  using collect_loop_ranks [of p "driver_find_elements root (Css ''div'' [''gs_ri''])" 0 "[]"]
  by (simp add: collect_page_items_def)

theorem collect_page_items_ranks_witness:
  "collect_page_items demo_dom 3 =
     Inr [\<lparr>page = 3, rank = 1, title = ascii ''A'', citations = 5\<rparr>,
          \<lparr>page = 3, rank = 2, title = ascii ''B'', citations = 20\<rparr>]
   \<and> map rank (projr (collect_page_items demo_dom 3)) = [1, 2]
   \<and> map card_title (driver_find_elements (dom untitled_page) (Css ''div'' [''gs_ri'']))
       = [Inr []]
   \<and> collect_page_items (dom untitled_page) 3 = Inr []"
proof -
  from collect_page_items_ranks [of demo_dom 3] obtain items
    where items: "collect_page_items demo_dom 3 = Inr items"
      and ranks: "map rank items = [1..int (length items)]"
    by blast
  from items have len: "length items = 2"
    by (auto simp: demo_collect)
  have "[1..int 2] = [1, 2]"
    by (simp add: upto.simps)
  with items ranks len have "map rank (projr (collect_page_items demo_dom 3)) = [1, 2]"
    by simp
  moreover have "map card_title (driver_find_elements (dom untitled_page) (Css ''div'' [''gs_ri'']))
      = [Inr []]"
    by (simp add: untitled_page_def dom_eval)
  ultimately show ?thesis
    by (simp add: demo_collect untitled_collect)
qed

text \<open>
  C3. On a page whose result block holds the citation link beside the card, not inside
  it, the two-stage search of the enclosing result block finds the link, which reads 7,
  but the extraction gives the card the count 0: the lookup written to reach the result
  block stops at the card itself, whose class \<^verbatim>\<open>gs_ri\<close> contains \<^verbatim>\<open>gs_r\<close>.
\<close>

theorem enclosing_block_link_missed:
  "driver_find_elements bug_dom (Css ''div'' [''gs_ri'']) = [(bug_card, [bug_block, bug_dom])]
   \<and> cite_link_in (bug_block, [bug_dom]) = Inr (Some (bug_link, [bug_block, bug_dom]))
   \<and> parse_citations_text (Some (strip (elem_text (bug_link, [bug_block, bug_dom])))) = Inr 7
   \<and> find_element (bug_card, [bug_block, bug_dom]) (XPathAncestor ''div'' [''gs_r'', ''gs_scl''])
       = Inr (bug_card, [bug_block, bug_dom])
   \<and> collect_page_items bug_dom 1
       = Inr [\<lparr>page = 1, rank = 1, title = ascii ''T'', citations = 0\<rparr>]"
  by (simp add: bug_dom_def bug_block_def bug_link_def bug_card_def dom_eval)

section \<open>Properties of the run\<close>

lemma after_challenge_append:
  "after_challenge E (xs @ ys) =
     (case after_challenge E xs of Some r \<Rightarrow> Some (r @ ys) | None \<Rightarrow> after_challenge E ys)"
  by (induction E xs rule: after_challenge.induct) simp_all

lemma extracted_append: "extracted (xs @ ys) = extracted xs @ extracted ys"
  by (induction xs rule: extracted.induct) simp_all

lemma session_events_append:
  "session_events (xs @ ys) = session_events xs @ session_events ys"
  by (simp add: session_events_def)

lemmas log_simps = after_challenge_append extracted_append session_events_append

lemma navigate_log:
  "navigate E r b = (res, b') \<Longrightarrow>
     (res = Inl WebDriverException \<and> log b' = log b)
     \<or> (\<exists>pg. res = Inr () \<and> log b' = log b @ [Loaded pg] \<and> current b' = pg)"
  by (auto simp: navigate_def split: option.splits)

lemma wait_if_captcha_log:
  "wait_if_captcha E True b = (res, b') \<Longrightarrow>
     (is_challenge E (current b) \<and> res = Inl StopException \<and> log b' = log b @ [Warned])
     \<or> (\<not> is_challenge E (current b) \<and> res = Inr False \<and> b' = b)"
  by (auto simp: wait_if_captcha_def split: if_splits)

lemma nav_gate:
  assumes "navigate E r b = (Inr u, b1)" "wait_if_captcha E True b1 = (res, b2)"
  shows "step_ok E b (res = Inl StopException) b2 \<and> (res = Inl StopException \<or> (\<exists>v. res = Inr v))
    \<and> extracted (log b2) = extracted (log b)"
  using navigate_log [OF assms(1)] wait_if_captcha_log [OF assms(2)]
  by (auto simp: step_ok_def log_simps session_events_def)

lemmas step_defs = navigate_def wait_if_captcha_def step_ok_def log_simps session_events_def

lemma go_to_page_step:
  assumes "go_to_page E q p b = (res, b')"
  shows "step_ok E b (res = Inl StopException) b' \<and> extracted (log b') = extracted (log b)"
  using assms
  by (auto simp: go_to_page_def Let_def step_defs split: option.splits if_splits)

lemma driver_find_element_Inl:
  "driver_find_element root loc = Inl e \<Longrightarrow> e = NoSuchElementException"
  by (simp add: driver_find_element_def split: list.splits)

lemma resubmit_step:
  assumes "resubmit E q b = (res, b')"
  shows "step_ok E b (res = Inl StopException) b' \<and> extracted (log b') = extracted (log b)"
  using assms
  by (auto simp: resubmit_def step_defs split: option.splits if_splits sum.splits
      dest: driver_find_element_Inl)

lemma step_ok_trans:
  "step_ok E b False b1 \<Longrightarrow> step_ok E b1 s b2 \<Longrightarrow> step_ok E b s b2"
  by (simp add: step_ok_def)

lemma step_ok_refl: "step_ok E b False b"
  by (simp add: step_ok_def)

lemma open_with_query_step:
  assumes "open_with_query E q b = (res, b')"
  shows "step_ok E b (res = Inl StopException) b' \<and> extracted (log b') = extracted (log b)"
proof -
  let ?url = "Get (URL_TEMPLATE (quote_plus E q))"
  obtain r1 b1 where n: "navigate E ?url b = (r1, b1)" by (cases "navigate E ?url b")
  show ?thesis
  proof (cases r1)
    case (Inl e)
    with assms n show ?thesis
      by (auto simp: open_with_query_def step_defs split: option.splits)
  next
    case (Inr u)
    obtain r2 b2 where w: "wait_if_captcha E True b1 = (r2, b2)"
      by (cases "wait_if_captcha E True b1")
    from nav_gate [OF n [unfolded Inr] w]
    have g: "step_ok E b (r2 = Inl StopException) b2"
      and r2: "r2 = Inl StopException \<or> (\<exists>v. r2 = Inr v)"
      and x: "extracted (log b2) = extracted (log b)"
      by simp_all
    from r2 show ?thesis
    proof
      assume "r2 = Inl StopException"
      with assms n Inr w g x show ?thesis
        by (simp add: open_with_query_def)
    next
      assume "\<exists>v. r2 = Inr v"
      then obtain v where v: "r2 = Inr v" by blast
      with g have g': "step_ok E b False b2" by simp
      show ?thesis
      proof (cases "present b2 (ByName ''q'') \<or> present b2 (Css ''div'' [''gs_ri''])")
        case False
        with assms n Inr w v g' x show ?thesis
          by (auto simp: open_with_query_def)
      next
        case True
        obtain r3 b3 where r: "resubmit E q b2 = (r3, b3)" by (cases "resubmit E q b2")
        from resubmit_step [OF r]
        have s3: "step_ok E b2 (r3 = Inl StopException) b3"
          and x3: "extracted (log b3) = extracted (log b2)"
          by simp_all
        have b': "b' = b3" and res: "(res = Inl StopException) = (r3 = Inl StopException)"
          using assms n Inr w v True r
          by (auto simp: open_with_query_def split: sum.splits if_splits)
        from step_ok_trans [OF g' s3] x x3 b' res show ?thesis by simp
      qed
    qed
  qed
qed

lemma scroll_page_step:
  "step_ok E b False (scroll_page E n b)
   \<and> extracted (log (scroll_page E n b)) = extracted (log b)"
proof (induction n arbitrary: b)
  case 0
  then show ?case by (simp add: step_ok_def)
next
  case (Suc n)
  let ?b1 = "b\<lparr>current := scrolled E (current b), log := log b @ [Scrolled]\<rparr>"
  have "step_ok E b False ?b1"
    by (simp add: step_defs)
  with Suc [of ?b1] show ?case
    by (auto simp: log_simps intro: step_ok_trans)
qed

lemma collect_page_items_total: "\<exists>items. collect_page_items root p = Inr items"
  using collect_loop_ranks [of p "driver_find_elements root (Css ''div'' [''gs_ri''])" 0 "[]"]
  by (auto simp: collect_page_items_def)

lemma collect_step_step:
  assumes "collect_step p b = (res, b')"
  shows "\<exists>items. res = Inr items \<and> step_ok E b False b'
     \<and> extracted (log b') = extracted (log b) @ items"
proof -
  obtain items where "collect_page_items (dom (current b)) p = Inr items"
    using collect_page_items_total by blast
  with assms show ?thesis
    by (auto simp: collect_step_def step_defs)
qed

lemma pages_loop_step:
  assumes "pages_loop E q sc ps results b = (res, b')"
  shows "step_ok E b (res = Inl StopException) b'
     \<and> (\<forall>rs. res = Inr rs \<longrightarrow> results = extracted (log b) \<longrightarrow> rs = extracted (log b'))"
  using assms
proof (induction ps arbitrary: results b)
  case Nil
  then show ?case by (auto simp: step_ok_def)
next
  case (Cons p ps)
  obtain r1 b1 where g: "go_to_page E q p b = (r1, b1)" by (cases "go_to_page E q p b")
  from go_to_page_step [OF g]
  have s1: "step_ok E b (r1 = Inl StopException) b1"
    and x1: "extracted (log b1) = extracted (log b)"
    by simp_all
  show ?case
  proof (cases r1)
    case (Inl e)
    with Cons.prems g s1 show ?thesis by auto
  next
    case (Inr u)
    with s1 have s1': "step_ok E b False b1" by simp
    let ?b2 = "scroll_page E sc b1"
    obtain r3 b3 where c: "collect_step p ?b2 = (r3, b3)" by (cases "collect_step p ?b2")
    from collect_step_step [OF c, of E] obtain items where r3: "r3 = Inr items"
      and s3: "step_ok E ?b2 False b3"
      and x3: "extracted (log b3) = extracted (log ?b2) @ items"
      by blast
    from scroll_page_step [of E b1 sc]
    have s2: "step_ok E b1 False ?b2" and x2: "extracted (log ?b2) = extracted (log b1)"
      by simp_all
    have s: "step_ok E b False b3"
      using s1' s2 s3 by (blast intro: step_ok_trans)
    have x: "extracted (log b3) = extracted (log b) @ items"
      using x1 x2 x3 by simp
    from Cons.prems g Inr c r3
    have rest: "pages_loop E q sc ps (results @ items) b3 = (res, b')"
      by simp
    from Cons.IH [OF rest]
    have s4: "step_ok E b3 (res = Inl StopException) b'"
      and x4: "\<forall>rs. res = Inr rs \<longrightarrow> results @ items = extracted (log b3) \<longrightarrow>
                 rs = extracted (log b')"
      by simp_all
    from step_ok_trans [OF s s4] x x4 show ?thesis by simp
  qed
qed

lemma traverse_step:
  assumes "traverse E q n sc b = (res, b')"
  shows "step_ok E b (res = Inl StopException) b'
     \<and> (\<forall>rs. res = Inr rs \<longrightarrow> extracted (log b) = [] \<longrightarrow> rs = extracted (log b'))"
proof -
  obtain r1 b1 where o: "open_with_query E q b = (r1, b1)" by (cases "open_with_query E q b")
  from open_with_query_step [OF o]
  have s1: "step_ok E b (r1 = Inl StopException) b1"
    and x1: "extracted (log b1) = extracted (log b)"
    by simp_all
  show ?thesis
  proof (cases r1)
    case (Inl e)
    with assms o s1 show ?thesis by (auto simp: traverse_def)
  next
    case (Inr u)
    with s1 have s1': "step_ok E b False b1" by simp
    let ?b2 = "scroll_page E sc b1"
    obtain r3 b3 where c: "collect_step 1 ?b2 = (r3, b3)" by (cases "collect_step 1 ?b2")
    from collect_step_step [OF c, of E] obtain items where r3: "r3 = Inr items"
      and s3: "step_ok E ?b2 False b3"
      and x3: "extracted (log b3) = extracted (log ?b2) @ items"
      by blast
    from scroll_page_step [of E b1 sc]
    have s2: "step_ok E b1 False ?b2" and x2: "extracted (log ?b2) = extracted (log b1)"
      by simp_all
    have s: "step_ok E b False b3"
      using s1' s2 s3 by (blast intro: step_ok_trans)
    have x: "extracted (log b3) = extracted (log b) @ items"
      using x1 x2 x3 by simp
    obtain r4 b4 where l: "pages_loop E q sc [2..n] ([] @ items) b3 = (r4, b4)"
      by (cases "pages_loop E q sc [2..n] ([] @ items) b3")
    from pages_loop_step [OF l]
    have s4: "step_ok E b3 (r4 = Inl StopException) b4"
      and x4: "\<forall>rs. r4 = Inr rs \<longrightarrow> [] @ items = extracted (log b3) \<longrightarrow>
                 rs = extracted (log b4)"
      by simp_all
    have s': "step_ok E b (r4 = Inl StopException) b4"
      by (rule step_ok_trans [OF s s4])
    from assms o Inr c r3 l have "res = r4" and "b' = b4"
      by (auto simp: traverse_def)
    with s' x x4 show ?thesis by auto
  qed
qed

lemma scrape_body_step:
  assumes "scrape_body E q n sc b = (res, b')"
  shows "step_ok E b (res = Inl StopException) b'
     \<and> (\<forall>out. res = Inr out \<longrightarrow> extracted (log b) = [] \<longrightarrow>
           aggregate E (extracted (log b')) = Inr out)"
proof -
  obtain r b1 where t: "traverse E q n sc b = (r, b1)" by (cases "traverse E q n sc b")
  from traverse_step [OF t]
  have s: "step_ok E b (r = Inl StopException) b1"
    and x: "\<forall>rs. r = Inr rs \<longrightarrow> extracted (log b) = [] \<longrightarrow> rs = extracted (log b1)"
    by simp_all
  show ?thesis
  proof (cases r)
    case (Inl e)
    with assms t s show ?thesis by (auto simp: scrape_body_def)
  next
    case (Inr rs)
    with assms t have res: "res = aggregate E rs" and b': "b' = b1"
      by (auto simp: scrape_body_def)
    from res have ns: "res \<noteq> Inl StopException"
      by (auto dest: aggregate_Inl)
    from Inr x have "extracted (log b) = [] \<Longrightarrow> rs = extracted (log b1)"
      by simp
    with res b' ns s Inr show ?thesis by auto
  qed
qed

section \<open>The whole run\<close>

lemma run_scrape_launched:
  assumes "launch_ok E"
    and "scrape_body E q n sc \<lparr>current = blank, navs = 0, log = [Launched]\<rparr> = (r, b1)"
  shows "run_scrape E q n sc = (r, b1\<lparr>log := log b1 @ [Quit]\<rparr>)"
  using assms by (simp add: run_scrape_def driver_quit_def)

lemma run_scrape_not_launched:
  "\<not> launch_ok E \<Longrightarrow>
     run_scrape E q n sc = (Inl WebDriverException, \<lparr>current = blank, navs = 0, log = []\<rparr>)"
  by (simp add: run_scrape_def)

lemma run_scrape_facts:
  assumes "launch_ok E"
  shows "\<exists>r b1. run_scrape E q n sc = (r, b1\<lparr>log := log b1 @ [Quit]\<rparr>)
     \<and> scrape_body E q n sc \<lparr>current = blank, navs = 0, log = [Launched]\<rparr> = (r, b1)
     \<and> session_events (log b1) = [Launched]
     \<and> (if r = Inl StopException then after_challenge E (log b1) = Some [Warned]
         else after_challenge E (log b1) = None)
     \<and> (\<forall>out. r = Inr out \<longrightarrow> aggregate E (extracted (log b1)) = Inr out)"
proof -
  let ?b0 = "\<lparr>current = blank, navs = 0, log = [Launched]\<rparr>"
  obtain r b1 where body: "scrape_body E q n sc ?b0 = (r, b1)"
    by (cases "scrape_body E q n sc ?b0")
  from scrape_body_step [OF body]
  have "step_ok E ?b0 (r = Inl StopException) b1"
    and "\<forall>out. r = Inr out \<longrightarrow> aggregate E (extracted (log b1)) = Inr out"
    by simp_all
  then show ?thesis
    using run_scrape_launched [OF assms body] body
    by (auto simp: step_ok_def session_events_def)
qed

lemma extracted_empty_iff:
  "extracted evs = [] \<longleftrightarrow> (\<forall>p items. Extracted p items \<in> set evs \<longrightarrow> items = [])"
  by (induction evs rule: extracted.induct) auto

text \<open>
  C7. Every run that launched the browser quits it exactly once, as its last action,
  whether the run ended with a result, with an exception or with the stop of the
  script; a failure of the quit is dropped and the outcome of the run is that of its
  body. A run that could not launch the browser has nothing to quit.
\<close>

theorem session_released_once:
  "session_events (log (snd (run_scrape E q n sc)))
     = (if launch_ok E then [Launched, Quit] else [])
   \<and> (launch_ok E \<longrightarrow>
        last (log (snd (run_scrape E q n sc))) = Quit
        \<and> fst (run_scrape E q n sc)
            = fst (scrape_body E q n sc \<lparr>current = blank, navs = 0, log = [Launched]\<rparr>))"
proof (cases "launch_ok E")
  case True
  from run_scrape_facts [OF True, of q n sc] obtain r b1
    where "run_scrape E q n sc = (r, b1\<lparr>log := log b1 @ [Quit]\<rparr>)"
      and "scrape_body E q n sc \<lparr>current = blank, navs = 0, log = [Launched]\<rparr> = (r, b1)"
      and "session_events (log b1) = [Launched]"
    by blast
  with True show ?thesis
    by (simp add: log_simps) (simp add: session_events_def)
next
  case False
  then show ?thesis
    by (simp add: run_scrape_not_launched session_events_def)
qed

text \<open>
  C5. When a page loaded by a navigation of the run holds a challenge signature (some
  hint occurs in the lowered page source), the run ends with the stop of the script;
  after that page was loaded the run only showed the warning and quit the browser, so
  it extracted nothing from the page and loaded no further page, and the user interface
  shows nothing more until the button is pressed again.
\<close>

theorem challenge_suspends:
  assumes "after_challenge E (log (snd (run_scrape E q n sc))) = Some rest"
  shows "fst (run_scrape E q n sc) = Inl StopException \<and> rest = [Warned, Quit]
     \<and> (strip q \<noteq> [] \<longrightarrow> on_run_btn E q n sc = Stopped)"
proof (cases "launch_ok E")
  case False
  with assms show ?thesis
    by (simp add: run_scrape_not_launched)
next
  case True
  from run_scrape_facts [OF True, of q n sc] obtain r b1
    where run: "run_scrape E q n sc = (r, b1\<lparr>log := log b1 @ [Quit]\<rparr>)"
      and gate: "if r = Inl StopException then after_challenge E (log b1) = Some [Warned]
         else after_challenge E (log b1) = None"
    by blast
  from assms run gate have "r = Inl StopException \<and> rest = [Warned, Quit]"
    by (cases "r = Inl StopException") (simp_all add: log_simps)
  with run show ?thesis
    by (simp add: on_run_btn_def)
qed



text \<open>
  C1. The result set a run returns is ordered: whenever a record has more citations
  than another, or as many and a lower page, or as many, the same page and a lower
  rank, it stands before the other. The records (5, page 1, rank 1), (20, page 1,
  rank 2), (20, page 2, rank 1) come out as (20, 1, 2), (20, 2, 1), (5, 1, 1).
\<close>

theorem run_scrape_ordered:
  "(fst (run_scrape E q n sc) = Inr out \<longrightarrow>
      ordered out
      \<and> (\<forall>i j. i < length out \<and> j < length out \<and> before (out ! i) (out ! j) \<longrightarrow> i < j))
   \<and> aggregate E
        [\<lparr>page = 1, rank = 1, title = t1, citations = 5\<rparr>,
         \<lparr>page = 1, rank = 2, title = t2, citations = 20\<rparr>,
         \<lparr>page = 2, rank = 1, title = t3, citations = 20\<rparr>]
      = Inr [\<lparr>page = 1, rank = 2, title = t2, citations = 20\<rparr>,
             \<lparr>page = 2, rank = 1, title = t3, citations = 20\<rparr>,
             \<lparr>page = 1, rank = 1, title = t1, citations = 5\<rparr>]"
proof -
  have ex: "aggregate E
        [\<lparr>page = 1, rank = 1, title = t1, citations = 5\<rparr>,
         \<lparr>page = 1, rank = 2, title = t2, citations = 20\<rparr>,
         \<lparr>page = 2, rank = 1, title = t3, citations = 20\<rparr>]
      = Inr [\<lparr>page = 1, rank = 2, title = t2, citations = 20\<rparr>,
             \<lparr>page = 2, rank = 1, title = t3, citations = 20\<rparr>,
             \<lparr>page = 1, rank = 1, title = t1, citations = 5\<rparr>]"
    by (simp add: aggregate_int64 sort_values_def)
  have ord: "ordered out
      \<and> (\<forall>i j. i < length out \<and> j < length out \<and> before (out ! i) (out ! j) \<longrightarrow> i < j)"
    if out: "fst (run_scrape E q n sc) = Inr out"
  proof (cases "launch_ok E")
    case False
    with out show ?thesis by (simp add: run_scrape_not_launched)
  next
    case True
    from run_scrape_facts [OF True, of q n sc] obtain r b1
      where run: "run_scrape E q n sc = (r, b1\<lparr>log := log b1 @ [Quit]\<rparr>)"
        and agg: "\<forall>out. r = Inr out \<longrightarrow> aggregate E (extracted (log b1)) = Inr out"
      by blast
    from out run agg have "aggregate E (extracted (log b1)) = Inr out" by simp
    then have "ordered out" by (rule ordered_aggregate)
    then show ?thesis
      using ordered_nth [of out] by blast
  qed
  from ex ord show ?thesis by blast
qed



section \<open>Runs on the small site\<close>

lemma demo_page_quiet: "lower E = ascii_lower \<Longrightarrow> \<not> is_challenge E demo_page"
  by (simp add: is_challenge_def hints_def demo_page_def ascii_lower_def ascii_def)

lemma untitled_page_quiet: "lower E = ascii_lower \<Longrightarrow> \<not> is_challenge E untitled_page"
  by (simp add: is_challenge_def hints_def untitled_page_def ascii_lower_def ascii_def)

lemma captcha_page_challenge: "lower E = ascii_lower \<Longrightarrow> is_challenge E captcha_page"
  by (simp add: is_challenge_def hints_def captcha_page_def ascii_lower_def ascii_def)

lemma demo_dom_present:
  "driver_find_elements demo_dom (Css ''div'' [''gs_ri'']) \<noteq> []"
  "driver_find_element demo_dom (ByName ''q'') = Inl NoSuchElementException"
  by (simp_all add: demo_dom_def demo_card_def driver_find_elements_def driver_find_element_def)

lemma untitled_dom_present:
  "driver_find_elements (dom untitled_page) (Css ''div'' [''gs_ri'']) \<noteq> []"
  "driver_find_element (dom untitled_page) (ByName ''q'') = Inl NoSuchElementException"
  by (simp_all add: untitled_page_def driver_find_elements_def driver_find_element_def)

lemma page_doms: "dom demo_page = demo_dom" "dom captcha_page = demo_dom"
  by (simp_all add: demo_page_def captcha_page_def)

lemma env_lower: "lower demo_env = ascii_lower" "lower captcha_env = ascii_lower"
  "lower untitled_env = ascii_lower" "lower cardless_env = ascii_lower"
  by (simp_all add: demo_env_def captcha_env_def untitled_env_def cardless_env_def)

lemma cardless_page_quiet: "lower E = ascii_lower \<Longrightarrow> \<not> is_challenge E cardless_page"
  by (simp add: is_challenge_def hints_def cardless_page_def ascii_lower_def ascii_def)


lemmas run_eval =
  run_scrape_def scrape_body_def traverse_def open_with_query_def resubmit_def go_to_page_def
  navigate_def wait_if_captcha_def present_def collect_step_def driver_quit_def Let_def
  demo_collect untitled_collect demo_dom_present untitled_dom_present page_doms
  demo_page_quiet captcha_page_challenge untitled_page_quiet env_lower
  cardless_page_quiet

lemma captcha_run:
  "run_scrape captcha_env (ascii ''ai'') 2 2 =
     (Inl StopException,
      \<lparr>current = captcha_page, navs = 2,
       log = [Launched, Loaded demo_page, Scrolled, Scrolled,
              Extracted 1 [\<lparr>page = 1, rank = 1, title = ascii ''A'', citations = 5\<rparr>,
                           \<lparr>page = 1, rank = 2, title = ascii ''B'', citations = 20\<rparr>],
              Loaded captcha_page, Warned, Quit]\<rparr>)"
  by (simp add: run_eval captcha_env_def demo_env_def numeral_2_eq_2)

lemma untitled_run:
  "run_scrape untitled_env (ascii ''ai'') 2 0 =
     (Inr [],
      \<lparr>current = untitled_page, navs = 2,
       log = [Launched, Loaded untitled_page, Extracted 1 [],
              Loaded untitled_page, Extracted 2 [], Quit]\<rparr>)"
  by (simp add: run_eval untitled_env_def demo_env_def aggregate_Nil)

lemma demo_run:
  "fst (run_scrape demo_env (ascii ''ai'') 2 0) =
     Inr [\<lparr>page = 1, rank = 2, title = ascii ''B'', citations = 20\<rparr>,
          \<lparr>page = 2, rank = 2, title = ascii ''B'', citations = 20\<rparr>,
          \<lparr>page = 1, rank = 1, title = ascii ''A'', citations = 5\<rparr>,
          \<lparr>page = 2, rank = 1, title = ascii ''A'', citations = 5\<rparr>]"
  by (simp add: run_eval demo_env_def aggregate_int64 sort_values_def)

lemma query_not_blank: "strip (ascii ''ai'') \<noteq> []"
  by (simp add: strip_def py_isspace_def ascii_def)

theorem session_released_once_witness:
  "launch_ok captcha_env \<and> \<not> quit_ok captcha_env
   \<and> fst (run_scrape captcha_env (ascii ''ai'') 2 2) = Inl StopException
   \<and> session_events (log (snd (run_scrape captcha_env (ascii ''ai'') 2 2))) = [Launched, Quit]
   \<and> last (log (snd (run_scrape captcha_env (ascii ''ai'') 2 2))) = Quit"
proof -
  have l: "launch_ok captcha_env" and q: "\<not> quit_ok captcha_env"
    by (simp_all add: captcha_env_def demo_env_def)
  from session_released_once [of captcha_env "ascii ''ai''" 2 2] l
  have "session_events (log (snd (run_scrape captcha_env (ascii ''ai'') 2 2))) = [Launched, Quit]"
    and "last (log (snd (run_scrape captcha_env (ascii ''ai'') 2 2))) = Quit"
    by simp_all
  with l q show ?thesis
    by (simp add: captcha_run)
qed

theorem challenge_suspends_witness:
  "after_challenge captcha_env (log (snd (run_scrape captcha_env (ascii ''ai'') 2 2)))
     = Some [Warned, Quit]
   \<and> fst (run_scrape captcha_env (ascii ''ai'') 2 2) = Inl StopException
   \<and> on_run_btn captcha_env (ascii ''ai'') 2 2 = Stopped"
proof -
  have h: "after_challenge captcha_env (log (snd (run_scrape captcha_env (ascii ''ai'') 2 2)))
      = Some [Warned, Quit]"
    by (simp add: captcha_run demo_page_quiet captcha_page_challenge env_lower)
  from challenge_suspends [OF h] query_not_blank h show ?thesis
    by simp
qed





theorem run_scrape_ordered_witness:
  "fst (run_scrape demo_env (ascii ''ai'') 2 0) =
     Inr [\<lparr>page = 1, rank = 2, title = ascii ''B'', citations = 20\<rparr>,
          \<lparr>page = 2, rank = 2, title = ascii ''B'', citations = 20\<rparr>,
          \<lparr>page = 1, rank = 1, title = ascii ''A'', citations = 5\<rparr>,
          \<lparr>page = 2, rank = 1, title = ascii ''A'', citations = 5\<rparr>]
   \<and> ordered [\<lparr>page = 1, rank = 2, title = ascii ''B'', citations = 20\<rparr>,
          \<lparr>page = 2, rank = 2, title = ascii ''B'', citations = 20\<rparr>,
          \<lparr>page = 1, rank = 1, title = ascii ''A'', citations = 5\<rparr>,
          \<lparr>page = 2, rank = 1, title = ascii ''A'', citations = 5\<rparr>]"
  using run_scrape_ordered [of demo_env "ascii ''ai''" 2 0, THEN conjunct1] demo_run
  by blast

section \<open>Properties of the export\<close>

lemma demo_strftime:
  "strftime \<lparr>year = 2025, month = 11, day = 2, hour = 3, minute = 14, second = 5\<rparr>
     = ascii ''20251102_031405''"
  by code_simp

lemma demo_file_name:
  "file_name demo_env (ascii ''a/b'') = ascii ''scholar_results_a_b_20251102_031405.xlsx''"
  by (simp add: file_name_def demo_env_def demo_strftime safe_query_def unsafe_chars_def
      ascii_def)

text \<open>
  C9, as the claim states it: the name would be \<^verbatim>\<open>results_\<close>, the sanitized query, an
  underscore, the time stamp and the extension. For the query \<^verbatim>\<open>a/b\<close> it is not.
\<close>

theorem file_name_results_prefix_counterexample:
  "file_name demo_env (ascii ''a/b'')
     \<noteq> ascii ''results_'' @ safe_query (ascii ''a/b'') @ ascii ''_''
         @ strftime (now demo_env) @ ascii ''.xlsx''"
proof -
  have r: "ascii ''results_'' @ safe_query (ascii ''a/b'') @ ascii ''_''
         @ strftime (now demo_env) @ ascii ''.xlsx'' = ascii ''results_a_b_20251102_031405.xlsx''"
    by (simp add: demo_env_def demo_strftime safe_query_def unsafe_chars_def ascii_def)
  have "ascii ''scholar_results_a_b_20251102_031405.xlsx''
      \<noteq> ascii ''results_a_b_20251102_031405.xlsx''"
    by (simp add: ascii_def)
  then show ?thesis
    by (simp only: demo_file_name r not_False_eq_True)
qed

text \<open>
  C9, amended. The name of the exported file is \<^verbatim>\<open>scholar_results_\<close>, the sanitized
  query, an underscore, the time stamp and \<^verbatim>\<open>.xlsx\<close>; the sanitized query is the query
  with each of the nine characters \<^verbatim>\<open>\ / : * ? " < > |\<close> replaced by an underscore and
  every other character kept.
\<close>

theorem file_name_convention:
  "file_name E q
     = ascii ''scholar_results_'' @ safe_query q @ ascii ''_'' @ strftime (now E) @ ascii ''.xlsx''
   \<and> length (safe_query q) = length q
   \<and> (\<forall>i < length q. safe_query q ! i = (if q ! i \<in> set unsafe_chars then 95 else q ! i))
   \<and> set (safe_query q) \<inter> set unsafe_chars = {}"
  by (auto simp: file_name_def safe_query_def ascii_def unsafe_chars_def)

theorem file_name_convention_witness:
  "file_name demo_env (ascii ''a/b'') = ascii ''scholar_results_a_b_20251102_031405.xlsx''
   \<and> 1 < length (ascii ''a/b'') \<and> ascii ''a/b'' ! 1 \<in> set unsafe_chars
   \<and> safe_query (ascii ''a/b'') ! 1 = 95"
proof -
  have i: "1 < length (ascii ''a/b'')" and u: "ascii ''a/b'' ! 1 \<in> set unsafe_chars"
    by (simp_all add: ascii_def unsafe_chars_def)
  from file_name_convention [of demo_env "ascii ''a/b''"]
  have "\<forall>i < length (ascii ''a/b'').
      safe_query (ascii ''a/b'') ! i
        = (if ascii ''a/b'' ! i \<in> set unsafe_chars then 95 else ascii ''a/b'' ! i)"
    by blast
  with i u have "safe_query (ascii ''a/b'') ! 1 = 95"
    by presburger
  with i u demo_file_name show ?thesis
    by blast
qed

text \<open>
  C10. When the spreadsheet writer succeeds, \<^verbatim>\<open>df_to_excel_bytes\<close> returns the pair of
  the file name and the content, and the user interface offers the content for
  download under that name.
\<close>

theorem df_to_excel_bytes_pair:
  "(to_excel E df = Inr xlsx \<longrightarrow> df_to_excel_bytes E df q = Inr (file_name E q, xlsx))
   \<and> (fst (run_scrape E q n sc) = Inr df \<and> df \<noteq> [] \<and> strip q \<noteq> [] \<and> to_excel E df = Inr xlsx
        \<longrightarrow> on_run_btn E q n sc = Success df (file_name E q) xlsx)"
  by (simp add: df_to_excel_bytes_def on_run_btn_def)

theorem df_to_excel_bytes_pair_witness:
  "to_excel demo_env (projr (fst (run_scrape demo_env (ascii ''ai'') 2 0))) = Inr [80, 75]
   \<and> df_to_excel_bytes demo_env (projr (fst (run_scrape demo_env (ascii ''ai'') 2 0))) (ascii ''ai'')
       = Inr (file_name demo_env (ascii ''ai''), [80, 75])
   \<and> on_run_btn demo_env (ascii ''ai'') 2 0
       = Success (projr (fst (run_scrape demo_env (ascii ''ai'') 2 0)))
           (file_name demo_env (ascii ''ai'')) [80, 75]"
proof -
  let ?df = "projr (fst (run_scrape demo_env (ascii ''ai'') 2 0))"
  have t: "to_excel demo_env ?df = Inr [80, 75]"
    by (simp add: demo_env_def)
  have r: "fst (run_scrape demo_env (ascii ''ai'') 2 0) = Inr ?df" and n: "?df \<noteq> []"
    by (simp_all add: demo_run)
  from df_to_excel_bytes_pair [of demo_env ?df "[80, 75]" "ascii ''ai''" 2 0] t r n query_not_blank
  show ?thesis
    by blast
qed

end
